theory Spec2Isabelle
  imports Complex_Main "HOL-Library.Word" "HOL-Library.Sublist"
begin

section \<open>Values, errors and console output\<close>

text \<open>
  The script \<^verbatim>\<open>gen_matrices.py\<close> computes with Python floats (IEEE-754 doubles).
  A finite double is modelled by the real number it denotes and every arithmetic
  operation on finite doubles by the exact real operation, so rounding is not part of
  this model.  The two infinities and the not-a-number value, which \<^verbatim>\<open>float()\<close> can
  return for the tokens \<^verbatim>\<open>inf\<close> and \<^verbatim>\<open>nan\<close>, are separate constructors.
\<close>

datatype pyfloat = Finite real | PosInf | NegInf | NaN

type_synonym matrix = "pyfloat list list"

type_synonym byte = "8 word"

text \<open>
  Every exception the script can raise is a value.  The three \<^verbatim>\<open>ValueError\<close>s raised
  by \<^verbatim>\<open>extract_pca_matrix\<close> and the one raised by \<^verbatim>\<open>float()\<close> are kept apart, since
  they carry different messages.
\<close>

datatype error =
    FileNotFound string
  | DeclarationNotFound
  | RowCountMismatch nat nat
  | ColumnCountMismatch nat nat nat
  | MalformedNumericLiteral string
  | ZeroDivisionError
  | MathDomainError
  | IndexError
  | EmptySequenceError
  | OverflowError
  | WriteFailed string

definition PCA_SIZE :: nat where
  "PCA_SIZE = 47"

definition DCT_SIZE :: nat where
  "DCT_SIZE = 257"

section \<open>Strings\<close>

text \<open>
  A text is a list of characters with code points below 256.  \<^verbatim>\<open>str.strip()\<close>, \<^verbatim>\<open>float()\<close>
  and the regular-expression class \<^verbatim>\<open>\s\<close> all use Python's Unicode whitespace test, which
  in this range holds for the code points 9 to 13, 28 to 32, 133 and 160.
\<close>

definition is_space :: "char \<Rightarrow> bool" where
  "is_space c =
     (let n = (of_char c :: nat)
      in (9 \<le> n \<and> n \<le> 13) \<or> (28 \<le> n \<and> n \<le> 32) \<or> n = 133 \<or> n = 160)"

definition strip :: "string \<Rightarrow> string" where
  "strip s = rev (dropWhile is_space (rev (dropWhile is_space s)))"

text \<open>\<^verbatim>\<open>s.split(sep)\<close> for a one-character separator: never an empty list.\<close>

fun split_on :: "char \<Rightarrow> string \<Rightarrow> string list" where
  "split_on sep [] = [[]]"
| "split_on sep (c # cs) =
     (if c = sep then [] # split_on sep cs
      else (case split_on sep cs of
              [] \<Rightarrow> [[c]]
            | w # ws \<Rightarrow> (c # w) # ws))"

text \<open>
  Python slicing \<^verbatim>\<open>xs[a:b]\<close>: a negative index counts from the end, and both indices
  are clamped to the list.
\<close>

definition py_slice :: "'a list \<Rightarrow> int \<Rightarrow> int \<Rightarrow> 'a list" where
  "py_slice xs a b =
     (let n = int (length xs);
          a' = (if a < 0 then max 0 (n + a) else min a n);
          b' = (if b < 0 then max 0 (n + b) else min b n)
      in take (nat (b' - a')) (drop (nat a') xs))"

section \<open>Parsing a number: \<^verbatim>\<open>float(s)\<close>\<close>

text \<open>
  \<^verbatim>\<open>float()\<close> strips whitespace and then accepts
  \<^verbatim>\<open>[sign] (number [exponent] | inf | infinity | nan)\<close>, the words in any letter case,
  where \<^verbatim>\<open>number\<close> is \<^verbatim>\<open>digitpart ["."  [digitpart]]\<close> or \<^verbatim>\<open>"." digitpart\<close>, \<^verbatim>\<open>exponent\<close> is
  \<^verbatim>\<open>("e" | "E") [sign] digitpart\<close> and \<^verbatim>\<open>digitpart\<close> is a run of digits in which single
  underscores may separate two digits.  The value of a decimal literal is taken exactly.
\<close>

definition is_digit :: "char \<Rightarrow> bool" where
  "is_digit c = (let n = (of_char c :: nat) in 48 \<le> n \<and> n \<le> 57)"

definition digit_val :: "char \<Rightarrow> nat" where
  "digit_val c = of_char c - 48"

definition to_lower :: "char \<Rightarrow> char" where
  "to_lower c =
     (let n = (of_char c :: nat) in if 65 \<le> n \<and> n \<le> 90 then char_of (n + 32) else c)"

text \<open>The digits following the first digit of a \<^verbatim>\<open>digitpart\<close>, and the unread rest.\<close>

fun digit_run :: "string \<Rightarrow> nat list \<times> string" where
  "digit_run [] = ([], [])"
| "digit_run [c] = (if is_digit c then ([digit_val c], []) else ([], [c]))"
| "digit_run (c # d # cs) =
     (if is_digit c then (case digit_run (d # cs) of (ds, r) \<Rightarrow> (digit_val c # ds, r))
      else if c = CHR ''_'' \<and> is_digit d
           then (case digit_run cs of (ds, r) \<Rightarrow> (digit_val d # ds, r))
      else ([], c # d # cs))"

definition digitpart :: "string \<Rightarrow> (nat list \<times> string) option" where
  "digitpart s =
     (case s of
        [] \<Rightarrow> None
      | c # cs \<Rightarrow>
          if is_digit c then (case digit_run cs of (ds, r) \<Rightarrow> Some (digit_val c # ds, r))
          else None)"

definition nat_of_digits :: "nat list \<Rightarrow> nat" where
  "nat_of_digits ds = foldl (\<lambda>a d. 10 * a + d) 0 ds"

text \<open>The integer digits, the fraction digits and the unread rest of a \<^verbatim>\<open>number\<close>.\<close>

definition number_part :: "string \<Rightarrow> ((nat list \<times> nat list) \<times> string) option" where
  "number_part s =
     (case s of
        [] \<Rightarrow> None
      | c # cs \<Rightarrow>
          if c = CHR ''.'' then
            (case digitpart cs of
               None \<Rightarrow> None
             | Some (fs, r) \<Rightarrow> Some (([], fs), r))
          else
            (case digitpart s of
               None \<Rightarrow> None
             | Some (is, r) \<Rightarrow>
                 (case r of
                    [] \<Rightarrow> Some ((is, []), [])
                  | p # r' \<Rightarrow>
                      if p = CHR ''.'' then
                        (case digitpart r' of
                           None \<Rightarrow> Some ((is, []), r')
                         | Some (fs, r'') \<Rightarrow> Some ((is, fs), r''))
                      else Some ((is, []), r))))"

text \<open>The exponent after the number: absent, or \<^verbatim>\<open>e\<close> with a signed \<^verbatim>\<open>digitpart\<close> up to the end.\<close>

definition exponent_part :: "string \<Rightarrow> int option" where
  "exponent_part s =
     (case s of
        [] \<Rightarrow> Some 0
      | c # cs \<Rightarrow>
          if c = CHR ''e'' \<or> c = CHR ''E'' then
            (case cs of
               [] \<Rightarrow> None
             | g # cs' \<Rightarrow>
                 (case digitpart (if g = CHR ''+'' \<or> g = CHR ''-'' then cs' else cs) of
                    None \<Rightarrow> None
                  | Some (es, r) \<Rightarrow>
                      if r = [] then
                        Some (if g = CHR ''-'' then - int (nat_of_digits es)
                              else int (nat_of_digits es))
                      else None))
          else None)"

definition decimal_value :: "nat list \<Rightarrow> nat list \<Rightarrow> int \<Rightarrow> real" where
  "decimal_value is fs e =
     (let m = real (nat_of_digits (is @ fs)) / 10 ^ length fs
      in if 0 \<le> e then m * 10 ^ nat e else m / 10 ^ nat (- e))"

definition abs_float :: "string \<Rightarrow> pyfloat option" where
  "abs_float s =
     (if map to_lower s = ''inf'' \<or> map to_lower s = ''infinity'' then Some PosInf
      else if map to_lower s = ''nan'' then Some NaN
      else (case number_part s of
              None \<Rightarrow> None
            | Some ((is, fs), r) \<Rightarrow>
                (case exponent_part r of
                   None \<Rightarrow> None
                 | Some e \<Rightarrow> Some (Finite (decimal_value is fs e)))))"

fun negate :: "pyfloat \<Rightarrow> pyfloat" where
  "negate (Finite x) = Finite (- x)"
| "negate PosInf = NegInf"
| "negate NegInf = PosInf"
| "negate NaN = NaN"

definition py_float :: "string \<Rightarrow> pyfloat option" where
  "py_float s =
     (case strip s of
        [] \<Rightarrow> None
      | c # cs \<Rightarrow>
          if c = CHR ''+'' then abs_float cs
          else if c = CHR ''-'' then map_option negate (abs_float cs)
          else abs_float (c # cs))"

section \<open>Locating the declaration\<close>

text \<open>
  \<^verbatim>\<open>re.search(r'pca_weight\[.*?\]\[.*?\]\s*=\s*\{', text)\<close> finds the leftmost match.
  Each function below matches the rest of the pattern at the head of its argument and
  returns the text after the match.  A lazy \<^verbatim>\<open>.*?\<close> tries the shortest stretch first and
  never crosses a newline; the greedy \<^verbatim>\<open>\s*\<close> needs no backtracking, because the
  character that must follow it is not whitespace.
\<close>

text \<open>\<^verbatim>\<open>\s*=\s*\{\<close>\<close>

definition match_assign :: "string \<Rightarrow> string option" where
  "match_assign s =
     (case dropWhile is_space s of
        [] \<Rightarrow> None
      | c # r \<Rightarrow>
          if c = CHR ''='' then
            (case dropWhile is_space r of
               [] \<Rightarrow> None
             | d # rest \<Rightarrow> if d = CHR ''{'' then Some rest else None)
          else None)"

text \<open>\<^verbatim>\<open>.*?\]\s*=\s*\{\<close>\<close>

fun match_second :: "string \<Rightarrow> string option" where
  "match_second [] = None"
| "match_second (c # cs) =
     (case (if c = CHR '']'' then match_assign cs else None) of
        Some rest \<Rightarrow> Some rest
      | None \<Rightarrow> if c = CHR 0x0A then None else match_second cs)"

text \<open>\<^verbatim>\<open>.*?\]\[.*?\]\s*=\s*\{\<close>\<close>

fun match_first :: "string \<Rightarrow> string option" where
  "match_first [] = None"
| "match_first (c # cs) =
     (case (if c = CHR '']'' then
              (case cs of
                 [] \<Rightarrow> None
               | d # ds \<Rightarrow> if d = CHR ''['' then match_second ds else None)
            else None) of
        Some rest \<Rightarrow> Some rest
      | None \<Rightarrow> if c = CHR 0x0A then None else match_first cs)"

text \<open>The whole pattern at the head of the text.\<close>

definition match_here :: "string \<Rightarrow> string option" where
  "match_here s =
     (if take 11 s = ''pca_weight['' then match_first (drop 11 s) else None)"

text \<open>The text after the leftmost match, trying every start position in turn.\<close>

fun search_rest :: "string \<Rightarrow> string option" where
  "search_rest [] = None"
| "search_rest (c # cs) =
     (case match_here (c # cs) of
        Some rest \<Rightarrow> Some rest
      | None \<Rightarrow> search_rest cs)"

text \<open>\<^verbatim>\<open>match.end()\<close>, the index just after the opening brace, when there is a match.\<close>

definition search_end :: "string \<Rightarrow> nat option" where
  "search_end text = map_option (\<lambda>rest. length text - length rest) (search_rest text)"

section \<open>Isolating the initializer body\<close>

text \<open>
  The \<^verbatim>\<open>while depth > 0 and pos < len(text)\<close> loop, returning the final \<^verbatim>\<open>depth\<close> and
  \<^verbatim>\<open>pos\<close>.
\<close>

function brace_scan :: "string \<Rightarrow> nat \<Rightarrow> nat \<Rightarrow> nat \<times> nat" where
  "brace_scan text depth pos =
     (if depth > 0 \<and> pos < length text then
        brace_scan text
          (if text ! pos = CHR ''{'' then depth + 1
           else if text ! pos = CHR ''}'' then depth - 1
           else depth)
          (pos + 1)
      else (depth, pos))"
  by pat_completeness auto
termination
  by (relation "measure (\<lambda>(text, depth, pos). length text - pos)") auto

declare brace_scan.simps [simp del]

section \<open>Splitting the body into rows\<close>

text \<open>
  \<^verbatim>\<open>re.findall(r'\{([^}]+)\}', array_text)\<close>: at an opening brace the greedy class runs to
  the next closing brace; the match needs at least one character in between and the
  closing brace itself, and the scan goes on after it.  Without a match the scan moves
  one character on.
\<close>

function findall_rows :: "string \<Rightarrow> string list" where
  "findall_rows [] = []"
| "findall_rows (c # cs) =
     (if c = CHR ''{'' \<and> takeWhile (\<lambda>x. x \<noteq> CHR ''}'') cs \<noteq> []
           \<and> dropWhile (\<lambda>x. x \<noteq> CHR ''}'') cs \<noteq> []
      then takeWhile (\<lambda>x. x \<noteq> CHR ''}'') cs
             # findall_rows (tl (dropWhile (\<lambda>x. x \<noteq> CHR ''}'') cs))
      else findall_rows cs)"
  by pat_completeness auto
termination
proof (relation "measure length")
  fix c :: char and cs :: string
  have "length (tl (dropWhile (\<lambda>x. x \<noteq> CHR ''}'') cs)) \<le> length cs"
    using length_dropWhile_le [of "\<lambda>x. x \<noteq> CHR ''}''" cs] by simp
  then show "(tl (dropWhile (\<lambda>x. x \<noteq> CHR ''}'') cs), c # cs) \<in> measure length"
    by simp
qed simp_all

section \<open>Parsing the rows\<close>

text \<open>\<^verbatim>\<open>[float(x.strip()) for x in xs]\<close>: the first token that does not parse raises.\<close>

fun float_all :: "string list \<Rightarrow> error + pyfloat list" where
  "float_all [] = Inr []"
| "float_all (x # xs) =
     (case py_float (strip x) of
        None \<Rightarrow> Inl (MalformedNumericLiteral (strip x))
      | Some v \<Rightarrow>
          (case float_all xs of
             Inl e \<Rightarrow> Inl e
           | Inr vs \<Rightarrow> Inr (v # vs)))"

text \<open>The pieces of a row that are kept: \<^verbatim>\<open>for x in row.split(',') if x.strip()\<close>.\<close>

definition row_tokens :: "string \<Rightarrow> string list" where
  "row_tokens row = filter (\<lambda>x. strip x \<noteq> []) (split_on CHR '','' row)"

definition row_values :: "string \<Rightarrow> error + pyfloat list" where
  "row_values row = float_all (row_tokens row)"

text \<open>The \<^verbatim>\<open>for i, row in enumerate(rows)\<close> loop, from row index \<open>i\<close> on.\<close>

fun parse_rows :: "nat \<Rightarrow> nat \<Rightarrow> string list \<Rightarrow> error + matrix" where
  "parse_rows cols i [] = Inr []"
| "parse_rows cols i (row # rows) =
     (case row_values row of
        Inl e \<Rightarrow> Inl e
      | Inr vs \<Rightarrow>
          if length vs \<noteq> cols then Inl (ColumnCountMismatch i cols (length vs))
          else (case parse_rows cols (Suc i) rows of
                  Inl e \<Rightarrow> Inl e
                | Inr m \<Rightarrow> Inr (vs # m)))"

text \<open>The body of the initializer, \<^verbatim>\<open>text[start:pos-1]\<close> after the brace scan.\<close>

definition array_text :: "string \<Rightarrow> nat \<Rightarrow> string" where
  "array_text text start =
     (case brace_scan text 1 start of
        (depth, pos) \<Rightarrow> py_slice text (int start) (int pos - 1))"

text \<open>
  \<^verbatim>\<open>extract_pca_matrix\<close> on the text of the file, with the two expected sizes as
  parameters; the script fixes them to \<^verbatim>\<open>PCA_SIZE\<close> and \<^verbatim>\<open>DCT_SIZE\<close>.
\<close>

definition extract_matrix :: "nat \<Rightarrow> nat \<Rightarrow> string \<Rightarrow> error + matrix" where
  "extract_matrix rows cols text =
     (case search_end text of
        None \<Rightarrow> Inl DeclarationNotFound
      | Some start \<Rightarrow>
          (let found = findall_rows (array_text text start)
           in if length found \<noteq> rows then Inl (RowCountMismatch rows (length found))
              else parse_rows cols 0 found))"

text \<open>
  \<^verbatim>\<open>extract_pca_matrix\<close> itself: the file is read first; \<open>files\<close> maps the path of each
  readable text file to its text.
\<close>

definition extract_file ::
  "nat \<Rightarrow> nat \<Rightarrow> (string \<rightharpoonup> string) \<Rightarrow> string \<Rightarrow> error + matrix" where
  "extract_file rows cols files c_source_path =
     (case files c_source_path of
        None \<Rightarrow> Inl (FileNotFound c_source_path)
      | Some text \<Rightarrow> extract_matrix rows cols text)"

definition extract_pca_matrix :: "(string \<rightharpoonup> string) \<Rightarrow> string \<Rightarrow> error + matrix" where
  "extract_pca_matrix files c_source_path = extract_file PCA_SIZE DCT_SIZE files c_source_path"

section \<open>The inverse basis generator\<close>

text \<open>
  Sequencing of steps that may raise: the first error ends the computation.
\<close>

definition and_then :: "error + 'a \<Rightarrow> ('a \<Rightarrow> error + 'b) \<Rightarrow> error + 'b" where
  "and_then m f = (case m of Inl e \<Rightarrow> Inl e | Inr x \<Rightarrow> f x)"

text \<open>A list comprehension whose elements may raise, evaluated from left to right.\<close>

fun sequence :: "(error + 'a) list \<Rightarrow> error + 'a list" where
  "sequence [] = Inr []"
| "sequence (m # ms) =
     (case m of
        Inl e \<Rightarrow> Inl e
      | Inr x \<Rightarrow> (case sequence ms of Inl e \<Rightarrow> Inl e | Inr xs \<Rightarrow> Inr (x # xs)))"

text \<open>
  Float division raises on a zero divisor, \<^verbatim>\<open>math.sqrt\<close> on a negative argument, and
  \<^verbatim>\<open>max\<close> on an empty sequence.  \<^verbatim>\<open>sum\<close> adds from the left, starting at 0.
\<close>

definition py_div :: "real \<Rightarrow> real \<Rightarrow> error + real" where
  "py_div a b = (if b = 0 then Inl ZeroDivisionError else Inr (a / b))"

definition py_sqrt :: "real \<Rightarrow> error + real" where
  "py_sqrt x = (if x < 0 then Inl MathDomainError else Inr (sqrt x))"

definition py_sum :: "real list \<Rightarrow> real" where
  "py_sum xs = foldl (+) 0 xs"

definition py_max :: "real list \<Rightarrow> error + real" where
  "py_max xs = (case xs of [] \<Rightarrow> Inl EmptySequenceError | x # ys \<Rightarrow> Inr (foldl max x ys))"

text \<open>What the generator prints.\<close>

datatype outmsg =
    ExtractingHeader
  | PcaShape nat nat
  | RowFirst "pyfloat list"
  | RowLast "pyfloat list"
  | GeneratingHeader
  | Verification real
  | Warning
  | IdctShape nat nat
  | SavingHeader
  | Saved nat nat string nat
  | Done

text \<open>
  \<^verbatim>\<open>generate_idct_matrix\<close>, with the basis size \<^verbatim>\<open>N\<close> as a parameter; the script fixes it
  to \<^verbatim>\<open>DCT_SIZE\<close>.  The two scale factors:
\<close>

definition ortho_x :: real where
  "ortho_x = sqrt 2"

definition ortho_y :: "nat \<Rightarrow> error + real" where
  "ortho_y N =
     and_then (py_div 2 (of_int (int N - 1))) (\<lambda>q.
     and_then (py_sqrt q) (\<lambda>r.
     Inr (0.5 * r)))"

text \<open>The forward matrix \<^verbatim>\<open>F\<close>, row \<open>k\<close> by row \<open>k\<close>.\<close>

definition forward_entry :: "real \<Rightarrow> nat \<Rightarrow> nat \<Rightarrow> nat \<Rightarrow> real" where
  "forward_entry oy N k n =
     (let c = cos (pi * real k * (2 * real n + 1) / (2 * real N))
      in if k = 0 then oy * c else ortho_x * oy * c)"

definition forward_matrix :: "real \<Rightarrow> nat \<Rightarrow> real list list" where
  "forward_matrix oy N = map (\<lambda>k. map (\<lambda>n. forward_entry oy N k n) [0..<N]) [0..<N]"

text \<open>The squared norm of each row of \<^verbatim>\<open>F\<close>.\<close>

definition norms_sq :: "real list list \<Rightarrow> nat \<Rightarrow> real list" where
  "norms_sq F N = map (\<lambda>k. py_sum (map (\<lambda>n. (F ! k ! n) ^ 2) [0..<N])) [0..<N]"

text \<open>\<^verbatim>\<open>IDCT[n][k] = F[k][n] / norms_sq[k]\<close>\<close>

definition idct_matrix :: "real list list \<Rightarrow> real list \<Rightarrow> nat \<Rightarrow> error + real list list" where
  "idct_matrix F ns N =
     sequence (map (\<lambda>n. sequence (map (\<lambda>k. py_div (F ! k ! n) (ns ! k)) [0..<N])) [0..<N])"

text \<open>
  The spot check: the unit vector at index 1 is sent through \<^verbatim>\<open>F\<close> and back through
  \<^verbatim>\<open>IDCT\<close>; the result is the largest absolute deviation.
\<close>

definition unit_vector :: "nat \<Rightarrow> error + real list" where
  "unit_vector N = (if 1 < N then Inr ((replicate N 0)[1 := 1]) else Inl IndexError)"

definition apply_matrix :: "real list list \<Rightarrow> real list \<Rightarrow> nat \<Rightarrow> real list" where
  "apply_matrix A x N = map (\<lambda>i. py_sum (map (\<lambda>j. A ! i ! j * x ! j) [0..<N])) [0..<N]"

definition reconstruction_error :: "real list list \<Rightarrow> real list list \<Rightarrow> nat \<Rightarrow> error + real" where
  "reconstruction_error F IDCT N =
     and_then (unit_vector N) (\<lambda>x_test.
       (let X_test = apply_matrix F x_test N;
            x_rec = apply_matrix IDCT X_test N
        in py_max (map (\<lambda>n. \<bar>x_rec ! n - x_test ! n\<bar>) [0..<N])))"

text \<open>
  The report of the check and the return: the error is printed, a warning is printed
  when it exceeds the tolerance, and the matrix is returned in either case.
\<close>

definition tolerance :: real where
  "tolerance = 1 / 1000000"

definition verification_report :: "real \<Rightarrow> outmsg list" where
  "verification_report err = Verification err # (if err > tolerance then [Warning] else [])"

definition finish_generate :: "real \<Rightarrow> real list list \<Rightarrow> outmsg list \<times> (error + real list list)" where
  "finish_generate err IDCT = (verification_report err, Inr IDCT)"

definition generate_idct_matrix :: "nat \<Rightarrow> outmsg list \<times> (error + real list list)" where
  "generate_idct_matrix N =
     (case ortho_y N of
        Inl e \<Rightarrow> ([], Inl e)
      | Inr oy \<Rightarrow>
          (let F = forward_matrix oy N;
               ns = norms_sq F N
           in case idct_matrix F ns N of
                Inl e \<Rightarrow> ([], Inl e)
              | Inr IDCT \<Rightarrow>
                  (case reconstruction_error F IDCT N of
                     Inl e \<Rightarrow> ([], Inl e)
                   | Inr err \<Rightarrow> finish_generate err IDCT)))"

section \<open>The binary writer\<close>

subsection \<open>\<^verbatim>\<open>struct.pack('<f', x)\<close>\<close>

text \<open>
  The value is rounded to the nearest single-precision number, ties to the even
  mantissa, and laid out as 1 sign bit, 8 exponent bits and 23 mantissa bits, lowest
  byte first.  For the absolute value \<open>a\<close>, with \<open>y = a * 2 ^ 126\<close>: \<open>k\<close> is the largest
  number up to 253 with \<open>2 ^ k \<le> y\<close>, or 0 when there is none, the mantissa with its
  leading bit is \<open>y * 2 ^ 23 / 2 ^ k\<close> rounded, and the exponent and mantissa fields
  together are \<open>k * 2 ^ 23\<close> plus that mantissa (a mantissa that rounds up to \<open>2 ^ 24\<close>
  carries into the exponent).  A finite value whose fields reach the pattern of infinity
  raises \<^verbatim>\<open>OverflowError\<close>.  The sign of a zero is not modelled.
\<close>

definition round_half_even :: "real \<Rightarrow> int" where
  "round_half_even x =
     (let f = \<lfloor>x\<rfloor>; d = x - of_int f
      in if d < 1 / 2 then f else if 1 / 2 < d then f + 1 else if even f then f else f + 1)"

fun f32_exponent :: "real \<Rightarrow> nat \<Rightarrow> nat" where
  "f32_exponent y 0 = 0"
| "f32_exponent y (Suc k) = (if 2 ^ Suc k \<le> y then Suc k else f32_exponent y k)"

definition f32_magnitude :: "real \<Rightarrow> int" where
  "f32_magnitude a =
     (let y = a * 2 ^ 126; k = f32_exponent y 253
      in int k * 2 ^ 23 + round_half_even (y * 2 ^ 23 / 2 ^ k))"

definition le_bytes :: "int \<Rightarrow> byte list" where
  "le_bytes n =
     [of_int (n mod 256), of_int (n div 256 mod 256), of_int (n div 65536 mod 256),
      of_int (n div 16777216 mod 256)]"

definition struct_pack_f :: "pyfloat \<Rightarrow> error + byte list" where
  "struct_pack_f v =
     (case v of
        Finite x \<Rightarrow>
          (let bits = f32_magnitude \<bar>x\<bar>
           in if 255 * 2 ^ 23 \<le> bits then Inl OverflowError
              else Inr (le_bytes ((if x < 0 then 2 ^ 31 else 0) + bits)))
      | PosInf \<Rightarrow> Inr (le_bytes (255 * 2 ^ 23))
      | NegInf \<Rightarrow> Inr (le_bytes (2 ^ 31 + 255 * 2 ^ 23))
      | NaN \<Rightarrow> Inr (le_bytes (255 * 2 ^ 23 + 2 ^ 22)))"

subsection \<open>\<^verbatim>\<open>save_matrix_binary\<close>\<close>

text \<open>
  The state of the run: the text files that can be read, the binary files written so
  far, the paths that can be opened for writing, and the lines printed so far.
\<close>

record world =
  texts :: "string \<rightharpoonup> string"
  blobs :: "string \<rightharpoonup> byte list"
  can_write :: "string \<Rightarrow> bool"
  stdout :: "outmsg list"

definition print :: "outmsg \<Rightarrow> world \<Rightarrow> world" where
  "print m w = w\<lparr>stdout := stdout w @ [m]\<rparr>"

text \<open>The index pairs of the two nested \<^verbatim>\<open>range\<close> loops, in the order they are visited.\<close>

definition cells :: "nat \<Rightarrow> nat \<Rightarrow> (nat \<times> nat) list" where
  "cells rows cols = concat (map (\<lambda>r. map (\<lambda>c. (r, c)) [0..<cols]) [0..<rows])"

text \<open>
  The writes of the loops, appended to the bytes written so far.  An index outside the
  matrix and a value that does not pack raise; the bytes written before stay.
\<close>

fun write_cells :: "matrix \<Rightarrow> (nat \<times> nat) list \<Rightarrow> byte list \<Rightarrow> error option \<times> byte list" where
  "write_cells M [] out = (None, out)"
| "write_cells M ((r, c) # rest) out =
     (if r < length M \<and> c < length (M ! r) then
        (case struct_pack_f (M ! r ! c) of
           Inl e \<Rightarrow> (Some e, out)
         | Inr bs \<Rightarrow> write_cells M rest (out @ bs))
      else (Some IndexError, out))"

text \<open>
  Opening the file for writing creates it empty, or fails; the summary line is printed
  after the file is closed.  The result is the new state and the exception, if any.
\<close>

definition save_matrix_binary ::
  "matrix \<Rightarrow> string \<Rightarrow> nat \<Rightarrow> nat \<Rightarrow> world \<Rightarrow> world \<times> error option" where
  "save_matrix_binary M path rows cols w =
     (if \<not> can_write w path then (w, Some (WriteFailed path))
      else (case write_cells M (cells rows cols) [] of
              (Some e, out) \<Rightarrow> (w\<lparr>blobs := (blobs w)(path \<mapsto> out)\<rparr>, Some e)
            | (None, out) \<Rightarrow>
                (print (Saved rows cols path (rows * cols * 4))
                   (w\<lparr>blobs := (blobs w)(path \<mapsto> out)\<rparr>), None)))"

section \<open>The script\<close>

definition default_firmware_path :: string where
  "default_firmware_path =
     ''/data/data/com.termux/files/home/reversing/buddie-src/Firmware-JL701N/cpu/br28/fft_and_pca.c''"

definition assets_dir :: string where
  "assets_dir = ''/data/data/com.termux/files/home/BeamApp/assets''"

definition pca_path :: string where
  "pca_path = assets_dir @ ''/ipca_weight.bin''"

definition idct_path :: string where
  "idct_path = assets_dir @ ''/idct_weight.bin''"

text \<open>
  \<^verbatim>\<open>main\<close> from the return of \<^verbatim>\<open>generate_idct_matrix()\<close> on: \<open>gen\<close> is what the generator
  printed and what it returned or raised.  The result is the final state and the
  exception that ended the run, if any.
\<close>

definition main_finish ::
  "nat \<Rightarrow> nat \<Rightarrow> matrix \<Rightarrow> outmsg list \<times> (error + real list list) \<Rightarrow> world
     \<Rightarrow> world \<times> error option" where
  "main_finish P D pca gen w =
     (case gen of (out, res) \<Rightarrow>
        (let w1 = w\<lparr>stdout := stdout w @ out\<rparr>
         in case res of
              Inl e \<Rightarrow> (w1, Some e)
            | Inr idct \<Rightarrow>
                (case idct of
                   [] \<Rightarrow> (w1, Some IndexError)
                 | r0 # _ \<Rightarrow>
                     (let w2 = print SavingHeader (print (IdctShape (length idct) (length r0)) w1)
                      in case save_matrix_binary pca pca_path P D w2 of
                           (w3, Some e) \<Rightarrow> (w3, Some e)
                         | (w3, None) \<Rightarrow>
                             (case save_matrix_binary (map (map Finite) idct) idct_path D D w3 of
                                (w4, Some e) \<Rightarrow> (w4, Some e)
                              | (w4, None) \<Rightarrow> (print Done w4, None))))))"

text \<open>
  \<^verbatim>\<open>main\<close> with the two sizes as parameters; \<open>argv\<close> is \<^verbatim>\<open>sys.argv\<close>.
\<close>

definition main_sized :: "nat \<Rightarrow> nat \<Rightarrow> string list \<Rightarrow> world \<Rightarrow> world \<times> error option" where
  "main_sized P D argv w =
     (let firmware_path = (if length argv > 1 then argv ! 1 else default_firmware_path);
          w1 = print ExtractingHeader w
      in case extract_file P D (texts w1) firmware_path of
           Inl e \<Rightarrow> (w1, Some e)
         | Inr pca \<Rightarrow>
             (case pca of
                [] \<Rightarrow> (w1, Some IndexError)
              | row0 # _ \<Rightarrow>
                  (let w2 = print (PcaShape (length pca) (length row0)) w1;
                       w3 = print (RowFirst (py_slice row0 0 5)) w2;
                       w4 = print (RowLast (py_slice row0 (- 5) (int (length row0)))) w3;
                       w5 = print GeneratingHeader w4
                   in main_finish P D pca (generate_idct_matrix D) w5)))"

definition main :: "string list \<Rightarrow> world \<Rightarrow> world \<times> error option" where
  "main argv w = main_sized PCA_SIZE DCT_SIZE argv w"

section \<open>Notions used to state the properties of the extractor\<close>

subsection \<open>The brace scan as a recursion over the unread text\<close>

text \<open>
  The final depth and the number of characters consumed when the scan starts at depth
  \<open>d\<close> in front of the given text.  Lemma \<open>brace_scan_scan\<close> relates it to the loop.
\<close>

fun scan :: "nat \<Rightarrow> string \<Rightarrow> nat \<times> nat" where
  "scan d [] = (d, 0)"
| "scan d (c # cs) =
     (if d = 0 then (0, 0)
      else (case scan (if c = CHR ''{'' then d + 1 else if c = CHR ''}'' then d - 1 else d) cs of
              (d', k) \<Rightarrow> (d', Suc k)))"

subsection \<open>Well-formed literals\<close>

text \<open>\<^verbatim>\<open>",".join(pieces)\<close>\<close>

fun join_commas :: "string list \<Rightarrow> string" where
  "join_commas [] = []"
| "join_commas [p] = p"
| "join_commas (p # q # ps) = p @ CHR '','' # join_commas (q # ps)"

definition brace_free :: "string \<Rightarrow> bool" where
  "brace_free s = (CHR ''{'' \<notin> set s \<and> CHR ''}'' \<notin> set s)"

text \<open>
  A literal is described by its parts: the text before the declaration, the two
  dimension texts, the whitespace around the equals sign, the text between the opening
  brace and the first group, the groups, and the text after the closing brace.  A group
  is given by the pieces between its commas and by the text that follows its closing
  brace.
\<close>

record literal =
  before_decl :: string
  dim1 :: string
  dim2 :: string
  space1 :: string
  space2 :: string
  lead :: string
  groups :: "(string list \<times> string) list"
  after_decl :: string

fun render_groups :: "(string list \<times> string) list \<Rightarrow> string" where
  "render_groups [] = []"
| "render_groups ((pieces, sep) # gs) =
     CHR ''{'' # join_commas pieces @ CHR ''}'' # sep @ render_groups gs"

definition render_header :: "literal \<Rightarrow> string" where
  "render_header L =
     before_decl L @ ''pca_weight['' @ dim1 L @ '']['' @ dim2 L @ '']'' @ space1 L @ ''=''
       @ space2 L @ ''{''"

definition render_body :: "literal \<Rightarrow> string" where
  "render_body L = lead L @ render_groups (groups L)"

definition render :: "literal \<Rightarrow> string" where
  "render L = render_header L @ render_body L @ ''}'' @ after_decl L"

text \<open>
  A group is in order when the text between its braces is not empty, its pieces contain
  neither a brace nor a comma, and no brace follows it before the next group.
\<close>

definition group_ok :: "string list \<times> string \<Rightarrow> bool" where
  "group_ok g =
     (case g of (pieces, sep) \<Rightarrow>
        pieces \<noteq> [] \<and> join_commas pieces \<noteq> [] \<and> brace_free sep
        \<and> (\<forall>p\<in>set pieces. brace_free p \<and> CHR '','' \<notin> set p))"

definition dim_ok :: "string \<Rightarrow> bool" where
  "dim_ok d = (CHR '']'' \<notin> set d \<and> CHR 0x0A \<notin> set d)"

text \<open>
  A literal is well formed when its declaration is the first occurrence of
  \<^verbatim>\<open>pca_weight[\<close> in the text, the dimension texts hold neither a closing bracket nor a
  newline, only whitespace surrounds the equals sign, and the body consists of groups
  that are in order.
\<close>

definition wellformed :: "literal \<Rightarrow> bool" where
  "wellformed L =
     ((\<forall>i<length (before_decl L).
          take 11 (drop i (before_decl L @ ''pca_weight['')) \<noteq> ''pca_weight['')
      \<and> dim_ok (dim1 L) \<and> dim_ok (dim2 L)
      \<and> (\<forall>c\<in>set (space1 L). is_space c) \<and> (\<forall>c\<in>set (space2 L). is_space c)
      \<and> brace_free (lead L)
      \<and> (\<forall>g\<in>set (groups L). group_ok g))"

text \<open>The value of a piece that parses, and the pieces that are not blank.\<close>

definition token_value :: "string \<Rightarrow> pyfloat" where
  "token_value p = the (py_float (strip p))"

definition kept :: "string list \<Rightarrow> string list" where
  "kept pieces = filter (\<lambda>p. strip p \<noteq> []) pieces"

subsection \<open>Decimal literals\<close>

text \<open>
  The text of a decimal literal with an optional sign, a non-empty integer part, an
  optional fraction and an optional exponent, given by the digits of its parts.  The
  exponent comes with its letter case, its sign and its digits.
\<close>

datatype sign_mark = NoSign | PlusSign | MinusSign

fun sign_text :: "sign_mark \<Rightarrow> string" where
  "sign_text NoSign = []"
| "sign_text PlusSign = ''+''"
| "sign_text MinusSign = ''-''"

definition digit_char :: "nat \<Rightarrow> char" where
  "digit_char d = char_of (48 + d)"

definition digits_text :: "nat list \<Rightarrow> string" where
  "digits_text ds = map digit_char ds"

definition exponent_text :: "(bool \<times> sign_mark \<times> nat list) option \<Rightarrow> string" where
  "exponent_text ex =
     (case ex of
        None \<Rightarrow> []
      | Some (upper, sg, ds) \<Rightarrow> (if upper then CHR ''E'' else CHR ''e'') # sign_text sg @ digits_text ds)"





text \<open>A text at which a run of digits ends: it starts with neither a digit nor an underscore.\<close>

definition stops :: "string \<Rightarrow> bool" where
  "stops r = (case r of [] \<Rightarrow> True | c # cs \<Rightarrow> \<not> is_digit c \<and> c \<noteq> CHR ''_'')"

subsection \<open>Example texts\<close>

definition example_text :: string where
  "example_text = ''pca_weight[2][2] = {{1.0,2.0},{3.0,4.0}};''"

definition example_literal :: literal where
  "example_literal =
     \<lparr>before_decl = [], dim1 = ''2'', dim2 = ''2'', space1 = '' '', space2 = '' '', lead = [],
      groups = [([''1.0'', ''2.0''], '',''), ([''3.0'', ''4.0''], [])], after_decl = '';''\<rparr>"

text \<open>The same matrix in a more liberal layout, as it could stand in a C source file.\<close>

definition spaced_literal :: literal where
  "spaced_literal =
     \<lparr>before_decl = ''const __fp16 '', dim1 = ''PCA_SIZE'', dim2 = ''DCT_SIZE'',
      space1 = '' '', space2 = [CHR 0x0A], lead = ''  '',
      groups = [([''1.0'', '' +2.0e0''], '', ''), (['' 30e-1 '', ''4.''], '' '')],
      after_decl = '';''\<rparr>"

text \<open>A literal with leading, repeated and trailing commas and a blank piece.\<close>

definition comma_literal :: literal where
  "comma_literal =
     \<lparr>before_decl = [], dim1 = ''2'', dim2 = ''2'', space1 = '' '', space2 = '' '', lead = [],
      groups = [([[], ''1.0'', [], ''2.0'', []], '',''), ([''3.0'', '' '', ''4.0''], [])],
      after_decl = '';''\<rparr>"

section \<open>The inverse basis as the specification gives it\<close>





section \<open>Lemmas about the extractor\<close>

lemma not_space_simps [simp]:
  "\<not> is_space CHR ''=''" "\<not> is_space CHR ''{''" "\<not> is_space CHR ''}''" "\<not> is_space CHR '',''"
  by (simp_all add: is_space_def)

lemma match_assign_ok:
  assumes "\<forall>c\<in>set ws1. is_space c" and "\<forall>c\<in>set ws2. is_space c"
  shows "match_assign (ws1 @ ''='' @ ws2 @ ''{'' @ rest) = Some rest"
  using assms by (simp add: match_assign_def dropWhile_append)

lemma match_second_ok:
  assumes "CHR '']'' \<notin> set d" and "CHR 0x0A \<notin> set d" and "match_assign t = Some rest"
  shows "match_second (d @ '']'' @ t) = Some rest"
  using assms by (induction d) auto

lemma match_first_ok:
  assumes "CHR '']'' \<notin> set d" and "CHR 0x0A \<notin> set d" and "match_second t = Some rest"
  shows "match_first (d @ '']['' @ t) = Some rest"
  using assms by (induction d) auto

lemma match_here_key: "match_here (''pca_weight['' @ t) = match_first t"
  by (simp add: match_here_def)

lemma search_rest_skip:
  assumes "\<forall>i<length pre. match_here (drop i (pre @ s)) = None"
    and "match_here s = Some rest"
  shows "search_rest (pre @ s) = Some rest"
  using assms
proof (induction pre)
  case Nil
  then show ?case by (cases s) (auto simp: match_here_def)
next
  case (Cons c pre)
  have "match_here ((c # pre) @ s) = None"
    using Cons.prems(1) by (metis drop0 length_greater_0_conv list.distinct(1))
  moreover have "\<forall>i<length pre. match_here (drop i (pre @ s)) = None"
  proof (intro allI impI)
    fix i assume "i < length pre"
    then have "match_here (drop (Suc i) ((c # pre) @ s)) = None"
      using Cons.prems(1) by (metis Suc_less_eq length_Cons)
    then show "match_here (drop i (pre @ s)) = None" by simp
  qed
  ultimately show ?case using Cons.IH Cons.prems(2) by simp
qed

lemma brace_scan_scan:
  "pos \<le> length tx \<Longrightarrow>
   brace_scan tx d pos = (case scan d (drop pos tx) of (d', k) \<Rightarrow> (d', pos + k))"
proof (induction tx d pos rule: brace_scan.induct)
  case (1 tx depth pos)
  show ?case
  proof (cases "depth > 0 \<and> pos < length tx")
    case True
    then have dr: "drop pos tx = tx ! pos # drop (Suc pos) tx"
      by (simp add: Cons_nth_drop_Suc)
    from True have le: "pos + 1 \<le> length tx" by simp
    show ?thesis
      using True "1.IH" [OF True le] 
      by (subst brace_scan.simps) (simp add: dr split: prod.splits)
  next
    case False
    then show ?thesis
      using "1.prems" by (subst brace_scan.simps) (cases "drop pos tx"; auto)
  qed
qed

lemma scan_brace_free:
  "brace_free s \<Longrightarrow> 0 < d \<Longrightarrow>
   scan d (s @ r) = (case scan d r of (d', k) \<Rightarrow> (d', length s + k))"
  by (induction s) (auto simp: brace_free_def split: prod.splits)

lemma scan_group:
  assumes "brace_free inner" and "0 < d"
  shows "scan d (CHR ''{'' # inner @ CHR ''}'' # r) =
         (case scan d r of (d', k) \<Rightarrow> (d', length inner + 2 + k))"
  using assms by (simp add: scan_brace_free split: prod.splits)

lemma brace_free_append [simp]: "brace_free (a @ b) = (brace_free a \<and> brace_free b)"
  by (auto simp: brace_free_def)

lemma brace_free_Cons [simp]:
  "brace_free (c # s) = (c \<noteq> CHR ''{'' \<and> c \<noteq> CHR ''}'' \<and> brace_free s)"
  by (auto simp: brace_free_def)

lemma brace_free_Nil [simp]: "brace_free []"
  by (simp add: brace_free_def)

lemma brace_free_join: "\<forall>p\<in>set ps. brace_free p \<Longrightarrow> brace_free (join_commas ps)"
  by (induction ps rule: join_commas.induct) auto

lemma scan_zero [simp]: "scan 0 s = (0, 0)"
  by (cases s) auto

lemma scan_groups:
  assumes "\<forall>g\<in>set gs. group_ok g" and "0 < d"
  shows "scan d (render_groups gs @ r) =
         (case scan d r of (d', k) \<Rightarrow> (d', length (render_groups gs) + k))"
  using assms
proof (induction gs)
  case Nil
  then show ?case by (simp split: prod.splits)
next
  case (Cons g gs)
  obtain pieces sep where g: "g = (pieces, sep)" by (cases g)
  have bf: "brace_free (join_commas pieces)" "brace_free sep"
    using Cons.prems(1) by (auto simp: g group_ok_def brace_free_join)
  have "scan d (render_groups (g # gs) @ r) =
        scan d (CHR ''{'' # join_commas pieces @ CHR ''}'' # (sep @ render_groups gs @ r))"
    by (simp add: g)
  also have "\<dots> = (case scan d (sep @ render_groups gs @ r) of
                      (d', k) \<Rightarrow> (d', length (join_commas pieces) + 2 + k))"
    using bf(1) Cons.prems(2) by (rule scan_group)
  also have "scan d (sep @ render_groups gs @ r) =
             (case scan d (render_groups gs @ r) of (d', k) \<Rightarrow> (d', length sep + k))"
    using bf(2) Cons.prems(2) by (rule scan_brace_free)
  also have "scan d (render_groups gs @ r) =
             (case scan d r of (d', k) \<Rightarrow> (d', length (render_groups gs) + k))"
    using Cons.IH Cons.prems by simp
  finally show ?case by (simp add: g split: prod.splits)
qed

lemma scan_body:
  assumes "brace_free sep0" and "\<forall>g\<in>set gs. group_ok g"
  shows "scan 1 ((sep0 @ render_groups gs) @ CHR ''}'' # post) =
         (0, Suc (length (sep0 @ render_groups gs)))"
proof -
  have "scan 1 (sep0 @ render_groups gs @ CHR ''}'' # post) =
        (case scan 1 (render_groups gs @ CHR ''}'' # post) of (d', k) \<Rightarrow> (d', length sep0 + k))"
    using assms(1) by (simp add: scan_brace_free)
  also have "scan 1 (render_groups gs @ CHR ''}'' # post) =
        (case scan 1 (CHR ''}'' # post) of (d', k) \<Rightarrow> (d', length (render_groups gs) + k))"
    using assms(2) by (simp add: scan_groups)
  finally show ?thesis by simp
qed

lemma array_text_closed:
  assumes "scan 1 (body @ CHR ''}'' # post) = (0, Suc (length body))"
  shows "array_text (head @ body @ CHR ''}'' # post) (length head) = body"
proof -
  have "brace_scan (head @ body @ CHR ''}'' # post) 1 (length head) =
        (0, length head + Suc (length body))"
    using assms by (simp add: brace_scan_scan)
  then show ?thesis
    by (simp add: array_text_def py_slice_def)
qed

lemma findall_skip: "CHR ''{'' \<notin> set s \<Longrightarrow> findall_rows (s @ r) = findall_rows r"
  by (induction s) auto

lemma findall_group:
  assumes "brace_free inner" and "inner \<noteq> []"
  shows "findall_rows (CHR ''{'' # inner @ CHR ''}'' # r) = inner # findall_rows r"
proof -
  have nb: "\<And>x. x \<in> set inner \<Longrightarrow> x \<noteq> CHR ''}''"
    using assms(1) by (auto simp: brace_free_def)
  have tw: "takeWhile (\<lambda>x. x \<noteq> CHR ''}'') (inner @ CHR ''}'' # r) = inner"
    using nb by (simp add: takeWhile_append2)
  have dw: "dropWhile (\<lambda>x. x \<noteq> CHR ''}'') (inner @ CHR ''}'' # r) = CHR ''}'' # r"
    using nb by (simp add: dropWhile_append2)
  show ?thesis
    using assms(2) by (simp add: tw dw)
qed

lemma findall_groups:
  assumes "\<forall>g\<in>set gs. group_ok g"
  shows "findall_rows (render_groups gs) = map (\<lambda>g. join_commas (fst g)) gs"
  using assms
proof (induction gs)
  case Nil
  then show ?case by simp
next
  case (Cons g gs)
  obtain pieces sep where g: "g = (pieces, sep)" by (cases g)
  have gp: "\<forall>p\<in>set pieces. brace_free p" "join_commas pieces \<noteq> []" "brace_free sep"
    using Cons.prems by (auto simp: g group_ok_def)
  have ok: "brace_free (join_commas pieces)" "join_commas pieces \<noteq> []" "CHR ''{'' \<notin> set sep"
    using gp brace_free_join [OF gp(1)] by (simp_all add: brace_free_def)
  have "findall_rows (render_groups (g # gs)) =
        findall_rows (CHR ''{'' # join_commas pieces @ CHR ''}'' # (sep @ render_groups gs))"
    by (simp add: g)
  also have "\<dots> = join_commas pieces # findall_rows (sep @ render_groups gs)"
    using ok(1,2) by (rule findall_group)
  also have "findall_rows (sep @ render_groups gs) = findall_rows (render_groups gs)"
    using ok(3) by (rule findall_skip)
  finally show ?case using Cons by (simp add: g)
qed

lemma findall_body:
  assumes "brace_free sep0" and "\<forall>g\<in>set gs. group_ok g"
  shows "findall_rows (sep0 @ render_groups gs) = map (\<lambda>g. join_commas (fst g)) gs"
  using assms by (simp add: findall_skip findall_groups brace_free_def)

lemma split_on_nonempty [simp]: "split_on sep s \<noteq> []"
  by (induction s) (auto split: list.splits)

lemma split_on_plain:
  "sep \<notin> set p \<Longrightarrow> split_on sep (p @ sep # r) = p # split_on sep r"
  by (induction p) auto

lemma split_on_single: "sep \<notin> set p \<Longrightarrow> split_on sep p = [p]"
  by (induction p) auto

lemma split_join:
  assumes "ps \<noteq> []" and "\<forall>p\<in>set ps. CHR '','' \<notin> set p"
  shows "split_on CHR '','' (join_commas ps) = ps"
  using assms
  by (induction ps rule: join_commas.induct) (auto simp: split_on_plain split_on_single)

lemma row_tokens_join:
  assumes "ps \<noteq> []" and "\<forall>p\<in>set ps. CHR '','' \<notin> set p"
  shows "row_tokens (join_commas ps) = filter (\<lambda>x. strip x \<noteq> []) ps"
  using assms by (simp add: row_tokens_def split_join)

lemma take_drop_key:
  assumes "i < length pre" and "n = length key"
  shows "take n (drop i (pre @ key @ rest)) = take n (drop i (pre @ key))"
proof -
  have "drop i (pre @ key @ rest) = (drop i pre @ key) @ rest"
    using assms by simp
  moreover have "drop i (pre @ key) = drop i pre @ key"
    using assms by simp
  moreover have "take n ((drop i pre @ key) @ rest) = take n (drop i pre @ key)"
    using assms by simp
  ultimately show ?thesis by simp
qed

lemma search_rest_render:
  assumes "wellformed L"
  shows "search_rest (render_header L @ rest) = Some rest"
proof -
  let ?pre = "before_decl L"
  let ?t = "dim1 L @ '']['' @ dim2 L @ '']'' @ space1 L @ ''='' @ space2 L @ ''{'' @ rest"
  let ?s = "''pca_weight['' @ ?t"
  have a: "match_assign (space1 L @ ''='' @ space2 L @ ''{'' @ rest) = Some rest"
    using assms by (intro match_assign_ok) (auto simp: wellformed_def)
  have b: "match_second (dim2 L @ '']'' @ space1 L @ ''='' @ space2 L @ ''{'' @ rest) = Some rest"
    using assms a by (intro match_second_ok) (auto simp: wellformed_def dim_ok_def)
  have c: "match_first (dim1 L @ '']['' @ dim2 L @ '']'' @ space1 L @ ''='' @ space2 L @ ''{'' @ rest)
             = Some rest"
    using assms b by (intro match_first_ok) (auto simp: wellformed_def dim_ok_def)
  have here: "match_here ?s = Some rest"
    using c match_here_key [of "dim1 L @ '']['' @ dim2 L @ '']'' @ space1 L @ ''='' @ space2 L @ ''{'' @ rest"]
    by simp
  have "\<forall>i<length ?pre. match_here (drop i (?pre @ ?s)) = None"
  proof (intro allI impI)
    fix i assume i: "i < length ?pre"
    then have ne: "take 11 (drop i (?pre @ ''pca_weight['')) \<noteq> ''pca_weight[''"
      using assms by (simp add: wellformed_def)
    have len: "(11::nat) = length ''pca_weight[''"
      by simp
    have eq: "take 11 (drop i (?pre @ ''pca_weight['' @ ?t)) =
          take 11 (drop i (?pre @ ''pca_weight[''))"
      using i len by (rule take_drop_key)
    have "take 11 (drop i (?pre @ ?s)) \<noteq> ''pca_weight[''"
      unfolding eq by (rule ne)
    then show "match_here (drop i (?pre @ ?s)) = None"
      unfolding match_here_def by (rule if_not_P)
  qed
  then have "search_rest (?pre @ ?s) = Some rest"
    using here by (rule search_rest_skip)
  then show ?thesis by (simp add: render_header_def)
qed

lemma search_end_render:
  assumes "wellformed L"
  shows "search_end (render_header L @ rest) = Some (length (render_header L))"
  using search_rest_render [OF assms, of rest] by (simp add: search_end_def)

lemma array_text_render:
  assumes "wellformed L"
  shows "array_text (render L) (length (render_header L)) = render_body L"
proof -
  have "scan 1 (render_body L @ CHR ''}'' # after_decl L) = (0, Suc (length (render_body L)))"
    unfolding render_body_def using assms by (intro scan_body) (auto simp: wellformed_def)
  then have "array_text (render_header L @ render_body L @ CHR ''}'' # after_decl L)
               (length (render_header L)) = render_body L"
    by (rule array_text_closed)
  then show ?thesis by (simp add: render_def)
qed

lemma extract_render:
  assumes "wellformed L"
  shows "extract_matrix rows cols (render L) =
         (if length (groups L) \<noteq> rows then Inl (RowCountMismatch rows (length (groups L)))
          else parse_rows cols 0 (map (\<lambda>g. join_commas (fst g)) (groups L)))"
proof -
  have se: "search_end (render L) = Some (length (render_header L))"
    using search_end_render [OF assms, of "render_body L @ ''}'' @ after_decl L"]
    by (simp add: render_def)
  have fa: "findall_rows (render_body L) = map (\<lambda>g. join_commas (fst g)) (groups L)"
    unfolding render_body_def using assms by (intro findall_body) (auto simp: wellformed_def)
  show ?thesis
    by (simp add: extract_matrix_def se array_text_render [OF assms] fa)
qed

lemma float_all_ok:
  "\<forall>x\<in>set xs. py_float (strip x) \<noteq> None \<Longrightarrow> float_all xs = Inr (map token_value xs)"
  by (induction xs) (auto simp: token_value_def)


lemma float_all_Inr:
  "float_all xs = Inr vs \<Longrightarrow> length vs = length xs \<and> (\<forall>x\<in>set xs. py_float (strip x) \<noteq> None)"
  by (induction xs arbitrary: vs) (auto split: option.splits sum.splits)

lemma float_all_Inl:
  "float_all xs = Inl e \<Longrightarrow> \<exists>x\<in>set xs. py_float (strip x) = None \<and> e = MalformedNumericLiteral (strip x)"
  by (induction xs) (auto split: option.splits sum.splits)

lemma parse_rows_all_ok:
  assumes "\<forall>row\<in>set rows. \<exists>vs. row_values row = Inr vs \<and> length vs = cols"
  shows "parse_rows cols i rows = Inr (map (\<lambda>row. map token_value (row_tokens row)) rows)"
  using assms
proof (induction rows arbitrary: i)
  case Nil
  then show ?case by simp
next
  case (Cons row rows)
  then obtain vs where vs: "row_values row = Inr vs" "length vs = cols" by auto
  then have "\<forall>x\<in>set (row_tokens row). py_float (strip x) \<noteq> None"
    using float_all_Inr [of "row_tokens row" vs] by (simp add: row_values_def)
  then have "vs = map token_value (row_tokens row)"
    using vs(1) float_all_ok [of "row_tokens row"] by (simp add: row_values_def)
  then show ?case using vs Cons by simp
qed

lemma parse_rows_first_bad:
  assumes "\<forall>row\<in>set good. \<exists>vs. row_values row = Inr vs \<and> length vs = cols"
  shows "parse_rows cols i (good @ bad # rest) =
         (case row_values bad of
            Inl e \<Rightarrow> Inl e
          | Inr vs \<Rightarrow>
              if length vs \<noteq> cols then Inl (ColumnCountMismatch (i + length good) cols (length vs))
              else (case parse_rows cols (Suc (i + length good)) rest of
                      Inl e \<Rightarrow> Inl e
                    | Inr m \<Rightarrow> Inr (map (\<lambda>row. map token_value (row_tokens row)) good @ vs # m)))"
  using assms
proof (induction good arbitrary: i)
  case Nil
  then show ?case by (simp split: sum.splits)
next
  case (Cons row good)
  then obtain vs where vs: "row_values row = Inr vs" "length vs = cols" by auto
  then have "\<forall>x\<in>set (row_tokens row). py_float (strip x) \<noteq> None"
    using float_all_Inr [of "row_tokens row" vs] by (simp add: row_values_def)
  then have eq: "vs = map token_value (row_tokens row)"
    using vs(1) float_all_ok [of "row_tokens row"] by (simp add: row_values_def)
  have "parse_rows cols (Suc i) (good @ bad # rest) = 
         (case row_values bad of
            Inl e \<Rightarrow> Inl e
          | Inr vs \<Rightarrow>
              if length vs \<noteq> cols then Inl (ColumnCountMismatch (Suc i + length good) cols (length vs))
              else (case parse_rows cols (Suc (Suc i + length good)) rest of
                      Inl e \<Rightarrow> Inl e
                    | Inr m \<Rightarrow> Inr (map (\<lambda>row. map token_value (row_tokens row)) good @ vs # m)))"
    using Cons by simp
  then show ?case using vs eq by (simp split: sum.splits)
qed

lemma parse_rows_Inr:
  "parse_rows cols i rows = Inr m \<Longrightarrow>
   \<forall>row\<in>set rows. \<exists>vs. row_values row = Inr vs \<and> length vs = cols"
  by (induction rows arbitrary: i m) (auto split: sum.splits if_splits)

lemma group_row_values:
  assumes "group_ok g" and "\<forall>p\<in>set (kept (fst g)). py_float (strip p) \<noteq> None"
  shows "row_values (join_commas (fst g)) = Inr (map token_value (kept (fst g)))"
proof -
  obtain pieces sep where g: "g = (pieces, sep)" by (cases g)
  have "row_tokens (join_commas pieces) = kept pieces"
    unfolding kept_def using assms(1) by (intro row_tokens_join) (auto simp: g group_ok_def)
  then show ?thesis
    using assms(2) by (simp add: g row_values_def float_all_ok)
qed

lemma extract_render_values:
  assumes "wellformed L" and "length (groups L) = rows"
    and "\<forall>g\<in>set (groups L). length (kept (fst g)) = cols
            \<and> (\<forall>p\<in>set (kept (fst g)). py_float (strip p) \<noteq> None)"
  shows "extract_matrix rows cols (render L) =
         Inr (map (\<lambda>g. map token_value (kept (fst g))) (groups L))"
proof -
  let ?rows = "map (\<lambda>g. join_commas (fst g)) (groups L)"
  have rv: "\<forall>g\<in>set (groups L). row_values (join_commas (fst g)) = Inr (map token_value (kept (fst g)))"
    using assms(1,3) by (auto simp: wellformed_def intro!: group_row_values)
  have "\<forall>row\<in>set ?rows. \<exists>vs. row_values row = Inr vs \<and> length vs = cols"
    using rv assms(3) by auto
  then have "parse_rows cols 0 ?rows = Inr (map (\<lambda>row. map token_value (row_tokens row)) ?rows)"
    by (rule parse_rows_all_ok)
  moreover have "\<forall>g\<in>set (groups L). map token_value (row_tokens (join_commas (fst g))) = map token_value (kept (fst g))"
  proof
    fix g assume gin: "g \<in> set (groups L)"
    then have "float_all (row_tokens (join_commas (fst g))) = Inr (map token_value (kept (fst g)))"
      using rv by (simp add: row_values_def)
    moreover have "\<forall>x\<in>set (row_tokens (join_commas (fst g))). py_float (strip x) \<noteq> None"
      using float_all_Inr [OF calculation] by simp
    ultimately show "map token_value (row_tokens (join_commas (fst g))) = map token_value (kept (fst g))"
      using float_all_ok [of "row_tokens (join_commas (fst g))"] by simp
  qed
  ultimately show ?thesis
    using assms(1,2) by (simp add: extract_render comp_def)
qed

lemma py_float_Nil [simp]: "py_float [] = None"
  by (simp add: py_float_def strip_def)

lemma py_float_nonblank:
  assumes "py_float (strip p) \<noteq> None"
  shows "strip p \<noteq> []"
proof
  assume "strip p = []"
  then have "py_float (strip p) = None" by simp
  with assms show False by simp
qed

lemma example_render: "render example_literal = example_text"
  by (simp add: example_literal_def example_text_def render_def render_header_def render_body_def)

lemma example_values: "extract_matrix 2 2 example_text = Inr [[Finite 1, Finite 2], [Finite 3, Finite 4]]"
  by code_simp

lemma example_cols3: "extract_matrix 2 3 example_text = Inl (ColumnCountMismatch 0 3 2)"
  by code_simp

lemma example_wf: "wellformed example_literal"
  by (simp add: wellformed_def example_literal_def dim_ok_def group_ok_def is_space_def)







lemma stops_simps [simp]:
  "stops []" "stops (CHR ''.'' # r)" "stops (CHR ''e'' # r)" "stops (CHR ''E'' # r)"
  by (simp_all add: stops_def is_digit_def)

lemma stops_exponent_text [simp]: "stops (exponent_text ex)"
  by (auto simp: exponent_text_def split: option.splits)










lemma search_end_le: "search_end src = Some start \<Longrightarrow> start \<le> length src"
  by (auto simp: search_end_def)

lemma extract_matrix_found:
  assumes "search_end src = Some start"
  shows "extract_matrix rows cols src =
         (if length (findall_rows (array_text src start)) \<noteq> rows
          then Inl (RowCountMismatch rows (length (findall_rows (array_text src start))))
          else parse_rows cols 0 (findall_rows (array_text src start)))"
  using assms by (simp add: extract_matrix_def Let_def)

lemma row_values_Inr:
  "row_values row = Inr vs \<Longrightarrow>
   length vs = length (row_tokens row) \<and> (\<forall>t\<in>set (row_tokens row). py_float (strip t) \<noteq> None)"
  using float_all_Inr [of "row_tokens row" vs] by (simp add: row_values_def)

lemma row_values_ok:
  "\<forall>t\<in>set (row_tokens row). py_float (strip t) \<noteq> None \<Longrightarrow>
   row_values row = Inr (map token_value (row_tokens row))"
  by (simp add: row_values_def float_all_ok)

lemma parse_rows_Inl:
  "parse_rows cols i rows = Inl e \<Longrightarrow>
   (\<exists>k n m. e = ColumnCountMismatch k n m) \<or> (\<exists>s. e = MalformedNumericLiteral s)"
proof (induction rows arbitrary: i)
  case Nil
  then show ?case by simp
next
  case (Cons row rows)
  show ?case
  proof (cases "row_values row")
    case (Inl e')
    then have "e = e'" using Cons.prems by simp
    then show ?thesis
      using float_all_Inl [of "row_tokens row" e'] Inl by (auto simp: row_values_def)
  next
    case (Inr vs)
    then show ?thesis
      using Cons by (auto split: if_splits sum.splits)
  qed
qed

lemma parse_rows_at:
  assumes "i < length found"
    and "\<forall>j<i. \<exists>vs. row_values (found ! j) = Inr vs \<and> length vs = cols"
  shows "parse_rows cols 0 found =
         (case row_values (found ! i) of
            Inl e \<Rightarrow> Inl e
          | Inr vs \<Rightarrow>
              if length vs \<noteq> cols then Inl (ColumnCountMismatch i cols (length vs))
              else (case parse_rows cols (Suc i) (drop (Suc i) found) of
                      Inl e \<Rightarrow> Inl e
                    | Inr m \<Rightarrow> Inr (map (\<lambda>row. map token_value (row_tokens row)) (take i found) @ vs # m)))"
proof -
  have split: "found = take i found @ found ! i # drop (Suc i) found"
    using assms(1) by (simp add: id_take_nth_drop)
  have good: "\<forall>row\<in>set (take i found). \<exists>vs. row_values row = Inr vs \<and> length vs = cols"
  proof
    fix row assume "row \<in> set (take i found)"
    then obtain j where "j < length (take i found)" "row = take i found ! j"
      by (auto simp: in_set_conv_nth)
    then show "\<exists>vs. row_values row = Inr vs \<and> length vs = cols"
      using assms by simp
  qed
  have "parse_rows cols 0 (take i found @ found ! i # drop (Suc i) found) =
         (case row_values (found ! i) of
            Inl e \<Rightarrow> Inl e
          | Inr vs \<Rightarrow>
              if length vs \<noteq> cols
              then Inl (ColumnCountMismatch (0 + length (take i found)) cols (length vs))
              else (case parse_rows cols (Suc (0 + length (take i found))) (drop (Suc i) found) of
                      Inl e \<Rightarrow> Inl e
                    | Inr m \<Rightarrow> Inr (map (\<lambda>row. map token_value (row_tokens row)) (take i found) @ vs # m)))"
    using good by (rule parse_rows_first_bad)
  moreover have "length (take i found) = i"
    using assms(1) by simp
  ultimately show ?thesis using split by (simp split: sum.splits)
qed

lemma any_bad_row_fails:
  assumes "search_end src = Some start" and "found = findall_rows (array_text src start)"
    and "row \<in> set found"
    and "length (row_tokens row) \<noteq> cols \<or> (\<exists>t\<in>set (row_tokens row). py_float (strip t) = None)"
  shows "\<exists>e. extract_matrix rows cols src = Inl e"
proof (cases "extract_matrix rows cols src")
  case (Inl e)
  then show ?thesis by simp
next
  case (Inr m)
  then have "parse_rows cols 0 found = Inr m"
    using assms(1,2) by (simp add: extract_matrix_found split: if_splits)
  then obtain vs where "row_values row = Inr vs" "length vs = cols"
    using parse_rows_Inr assms(3) by blast
  then have False
    using row_values_Inr [of row vs] assms(4) by auto
  then show ?thesis ..
qed




lemma scan_exit:
  "scan d s = (d', k) \<Longrightarrow> k \<le> length s \<and> (d' = 0 \<or> (k = length s \<and> 0 < d'))"
proof (induction s arbitrary: d d' k)
  case Nil
  then show ?case by auto
next
  case (Cons c s)
  show ?case
  proof (cases "d = 0")
    case True
    then show ?thesis using Cons.prems by simp
  next
    case False
    let ?d1 = "if c = CHR ''{'' then d + 1 else if c = CHR ''}'' then d - 1 else d"
    obtain d1 k1 where s1: "scan ?d1 s = (d1, k1)" by (cases "scan ?d1 s")
    then have "d' = d1" "k = Suc k1"
      using Cons.prems False by simp_all
    then show ?thesis using Cons.IH [OF s1] by auto
  qed
qed

lemma brace_scan_exit:
  assumes "start \<le> length src"
  shows "\<exists>depth pos. brace_scan src d start = (depth, pos) \<and> start \<le> pos \<and> pos \<le> length src
           \<and> (depth = 0 \<or> pos = length src)"
proof -
  obtain d' k where s: "scan d (drop start src) = (d', k)" by (cases "scan d (drop start src)")
  have "brace_scan src d start = (d', start + k)"
    using assms s by (simp add: brace_scan_scan)
  moreover have "k \<le> length src - start \<and> (d' = 0 \<or> k = length src - start)"
    using scan_exit [OF s] by auto
  ultimately show ?thesis using assms by auto
qed

lemma py_slice_butlast:
  assumes "start \<le> length src"
  shows "py_slice src (int start) (int (length src) - 1) = butlast (drop start src)"
proof (cases "length src = 0")
  case True
  then show ?thesis by (simp add: py_slice_def)
next
  case False
  have "nat (int (length src) - 1 - int start) = length (drop start src) - 1"
    by auto
  then show ?thesis
    using False assms by (simp add: py_slice_def butlast_conv_take min_def)
qed

lemma array_text_unbalanced:
  assumes "start \<le> length src" and "fst (brace_scan src 1 start) \<noteq> 0"
  shows "array_text src start = py_slice src (int start) (int (length src) - 1)"
proof -
  obtain depth pos where b: "brace_scan src 1 start = (depth, pos)"
    and "depth = 0 \<or> pos = length src"
    using brace_scan_exit [OF assms(1), of 1] by auto
  then have "pos = length src" using assms(2) by simp
  then show ?thesis unfolding array_text_def b by simp
qed

lemma extract_matrix_errors:
  assumes "search_end src = Some start" and "extract_matrix rows cols src = Inl e"
  shows "(\<exists>n m. e = RowCountMismatch n m) \<or> (\<exists>k n m. e = ColumnCountMismatch k n m)
           \<or> (\<exists>s. e = MalformedNumericLiteral s)"
proof (cases "length (findall_rows (array_text src start)) \<noteq> rows")
  case True
  then show ?thesis using assms by (auto simp: extract_matrix_found)
next
  case False
  then have "parse_rows cols 0 (findall_rows (array_text src start)) = Inl e"
    using assms by (simp add: extract_matrix_found)
  then show ?thesis using parse_rows_Inl by blast
qed

section \<open>Lemmas about the generator\<close>


















section \<open>Properties of the extractor\<close>

text \<open>
  Claim C3.  For every well-formed literal text that contains the declaration with
  exactly \<open>rows\<close> brace groups of \<open>cols\<close> numeric tokens each, extraction with the
  expected dimensions \<open>rows\<close> and \<open>cols\<close> returns the matrix whose entry \<open>(i, j)\<close> is the
  value of token \<open>j\<close> of group \<open>i\<close>, so a \<open>rows\<close> by \<open>cols\<close> matrix in the textual order
  of the literal.  In particular the text
  \<^verbatim>\<open>pca_weight[2][2] = {{1.0,2.0},{3.0,4.0}};\<close> with expected dimensions 2 and 2 yields
  \<open>[[1, 2], [3, 4]]\<close>.
\<close>

theorem extract_wellformed_literal:
  assumes "wellformed L" and "length (groups L) = rows"
    and "\<forall>g\<in>set (groups L).
           length (fst g) = cols \<and> (\<forall>p\<in>set (fst g). py_float (strip p) \<noteq> None)"
  shows "extract_matrix rows cols (render L) =
           Inr (map (\<lambda>g. map token_value (fst g)) (groups L))
       \<and> length (map (\<lambda>g. map token_value (fst g)) (groups L)) = rows
       \<and> (\<forall>r\<in>set (map (\<lambda>g. map token_value (fst g)) (groups L)). length r = cols)
       \<and> extract_matrix 2 2 ''pca_weight[2][2] = {{1.0,2.0},{3.0,4.0}};''
           = Inr [[Finite 1, Finite 2], [Finite 3, Finite 4]]"
proof -
  have k: "\<forall>g\<in>set (groups L). kept (fst g) = fst g"
    using assms(3) by (auto simp: kept_def py_float_nonblank intro!: filter_True)
  then have "\<forall>g\<in>set (groups L). length (kept (fst g)) = cols
            \<and> (\<forall>p\<in>set (kept (fst g)). py_float (strip p) \<noteq> None)"
    using assms(3) by simp
  then have "extract_matrix rows cols (render L) =
         Inr (map (\<lambda>g. map token_value (kept (fst g))) (groups L))"
    using assms(1,2) by (intro extract_render_values) auto
  then have "extract_matrix rows cols (render L) =
           Inr (map (\<lambda>g. map token_value (fst g)) (groups L))"
    using k by (simp cong: map_cong)
  then show ?thesis
    using assms(2,3) example_values by (simp add: example_text_def)
qed

theorem extract_wellformed_literal_witness:
  "wellformed spaced_literal \<and> length (groups spaced_literal) = 2
   \<and> map (\<lambda>g. map (\<lambda>p. py_float (strip p)) (fst g)) (groups spaced_literal)
        = [[Some (Finite 1), Some (Finite 2)], [Some (Finite 3), Some (Finite 4)]]
   \<and> render spaced_literal
        = ''const __fp16 pca_weight[PCA_SIZE][DCT_SIZE] ='' @ [CHR 0x0A]
            @ ''{  {1.0, +2.0e0}, { 30e-1 ,4.} };''
   \<and> extract_matrix 2 2 (render spaced_literal)
        = Inr [[Finite 1, Finite 2], [Finite 3, Finite 4]]"
proof -
  have wf: "wellformed spaced_literal"
    by code_simp
  have len: "length (groups spaced_literal) = 2"
    by (simp add: spaced_literal_def)
  have parsed: "map (\<lambda>g. map (\<lambda>p. py_float (strip p)) (fst g)) (groups spaced_literal)
        = [[Some (Finite 1), Some (Finite 2)], [Some (Finite 3), Some (Finite 4)]]"
    by code_simp
  have toks: "\<forall>g\<in>set (groups spaced_literal).
         length (fst g) = 2 \<and> (\<forall>p\<in>set (fst g). py_float (strip p) \<noteq> None)"
    using parsed by (simp add: spaced_literal_def)
  have ren: "render spaced_literal
        = ''const __fp16 pca_weight[PCA_SIZE][DCT_SIZE] ='' @ [CHR 0x0A]
            @ ''{  {1.0, +2.0e0}, { 30e-1 ,4.} };''"
    by (simp add: spaced_literal_def render_def render_header_def render_body_def)
  have vals: "map (\<lambda>g. map token_value (fst g)) (groups spaced_literal)
        = [[Finite 1, Finite 2], [Finite 3, Finite 4]]"
    using parsed by (simp add: spaced_literal_def token_value_def)
  show ?thesis
    using extract_wellformed_literal [OF wf len toks] wf len parsed ren vals by simp
qed

text \<open>
  Claim C9.  The empty pieces that splitting a row on commas produces (pieces that are
  empty or blank) are dropped before parsing and before the column count is checked.  A
  row with leading, repeated or trailing commas whose remaining pieces are exactly
  \<open>cols\<close> numeric tokens has these tokens as its values and passes the column check, so
  the loop goes on with the next row, and a literal all of whose groups are of this kind
  is extracted to the values of the pieces that were kept.
\<close>

theorem empty_tokens_discarded:
  assumes "pieces \<noteq> []" and "\<forall>p\<in>set pieces. CHR '','' \<notin> set p"
  shows "row_tokens (join_commas pieces) = kept pieces
     \<and> ((\<forall>p\<in>set (kept pieces). py_float (strip p) \<noteq> None) \<longrightarrow>
          row_values (join_commas pieces) = Inr (map token_value (kept pieces)))
     \<and> ((\<forall>p\<in>set (kept pieces). py_float (strip p) \<noteq> None) \<and> length (kept pieces) = cols \<longrightarrow>
          parse_rows cols i (join_commas pieces # more_rows) =
            (case parse_rows cols (Suc i) more_rows of
               Inl e \<Rightarrow> Inl e
             | Inr m \<Rightarrow> Inr (map token_value (kept pieces) # m)))
     \<and> (wellformed L \<and> length (groups L) = rows
          \<and> (\<forall>g\<in>set (groups L). length (kept (fst g)) = cols
                \<and> (\<forall>p\<in>set (kept (fst g)). py_float (strip p) \<noteq> None)) \<longrightarrow>
          extract_matrix rows cols (render L) =
            Inr (map (\<lambda>g. map token_value (kept (fst g))) (groups L)))"
proof -
  have rt: "row_tokens (join_commas pieces) = kept pieces"
    unfolding kept_def using assms by (rule row_tokens_join)
  have rv: "row_values (join_commas pieces) = Inr (map token_value (kept pieces))"
    if "\<forall>p\<in>set (kept pieces). py_float (strip p) \<noteq> None"
    using that by (simp add: row_values_def rt float_all_ok)
  show ?thesis
    using rt rv extract_render_values [of L rows cols] by auto
qed

theorem empty_tokens_discarded_witness:
  "join_commas [[], ''1.0'', '' '', ''2.0'', []] = '',1.0, ,2.0,''
   \<and> row_tokens '',1.0, ,2.0,'' = [''1.0'', ''2.0'']
   \<and> row_values '',1.0, ,2.0,'' = Inr [Finite 1, Finite 2]
   \<and> parse_rows 2 0 ['',1.0, ,2.0,''] = Inr [[Finite 1, Finite 2]]
   \<and> wellformed comma_literal
   \<and> render comma_literal = ''pca_weight[2][2] = {{,1.0,,2.0,},{3.0, ,4.0}};''
   \<and> extract_matrix 2 2 ''pca_weight[2][2] = {{,1.0,,2.0,},{3.0, ,4.0}};''
        = Inr [[Finite 1, Finite 2], [Finite 3, Finite 4]]"
proof -
  let ?ps = "[[], ''1.0'', '' '', ''2.0'', []]"
  have j: "join_commas ?ps = '',1.0, ,2.0,''" by simp
  have k: "kept ?ps = [''1.0'', ''2.0'']" by code_simp
  have v: "map (\<lambda>p. py_float (strip p)) [''1.0'', ''2.0''] = [Some (Finite 1), Some (Finite 2)]"
    by code_simp
  have h1: "?ps \<noteq> []" by simp
  have h2: "\<forall>p\<in>set ?ps. CHR '','' \<notin> set p" by simp
  have h3: "\<forall>p\<in>set (kept ?ps). py_float (strip p) \<noteq> None" using v by (simp add: k)
  have h4: "length (kept ?ps) = 2" by (simp add: k)
  have tv: "map token_value (kept ?ps) = [Finite 1, Finite 2]"
    using v by (simp add: k token_value_def)
  have wf: "wellformed comma_literal" by code_simp
  have len: "length (groups comma_literal) = 2" by (simp add: comma_literal_def)
  have kg: "map (\<lambda>g. kept (fst g)) (groups comma_literal) = [[''1.0'', ''2.0''], [''3.0'', ''4.0'']]"
    by code_simp
  have pg: "map (\<lambda>p. py_float (strip p)) [''3.0'', ''4.0''] = [Some (Finite 3), Some (Finite 4)]"
    by code_simp
  have h5: "\<forall>g\<in>set (groups comma_literal). length (kept (fst g)) = 2
                \<and> (\<forall>p\<in>set (kept (fst g)). py_float (strip p) \<noteq> None)"
    using kg v pg by (simp add: comma_literal_def)
  have vals: "map (\<lambda>g. map token_value (kept (fst g))) (groups comma_literal)
                = [[Finite 1, Finite 2], [Finite 3, Finite 4]]"
    using kg v pg by (simp add: comma_literal_def token_value_def)
  have ren: "render comma_literal = ''pca_weight[2][2] = {{,1.0,,2.0,},{3.0, ,4.0}};''"
    by (simp add: comma_literal_def render_def render_header_def render_body_def)
  show ?thesis
    using empty_tokens_discarded [OF h1 h2, of 2 0 "[]" comma_literal 2]
      h3 h4 wf len h5 j k tv vals ren
    by simp
qed

text \<open>
  Claim C4, as amended.  When the declaration is found, extraction fails with the
  row-count mismatch whenever the number of brace groups of the body differs from
  \<open>rows\<close>.  A group whose token count differs from \<open>cols\<close> always makes extraction
  fail.  The failure is the column-count mismatch of group \<open>i\<close> when the row count
  matches, every group before \<open>i\<close> yields exactly \<open>cols\<close> values, and every token of group
  \<open>i\<close> parses while their number differs from \<open>cols\<close>.  In particular the text
  \<^verbatim>\<open>pca_weight[2][2] = {{1.0,2.0},{3.0,4.0}};\<close> with 3 expected columns fails with the
  column-count mismatch of group 0.
\<close>

theorem shape_mismatch_errors:
  assumes "search_end src = Some start" and "found = findall_rows (array_text src start)"
  shows "(length found \<noteq> rows \<longrightarrow>
            extract_matrix rows cols src = Inl (RowCountMismatch rows (length found)))
     \<and> ((\<exists>row\<in>set found. length (row_tokens row) \<noteq> cols) \<longrightarrow>
            (\<exists>e. extract_matrix rows cols src = Inl e))
     \<and> (length found = rows \<and> i < rows
          \<and> (\<forall>j<i. \<exists>vs. row_values (found ! j) = Inr vs \<and> length vs = cols)
          \<and> (\<forall>t\<in>set (row_tokens (found ! i)). py_float (strip t) \<noteq> None)
          \<and> length (row_tokens (found ! i)) \<noteq> cols \<longrightarrow>
            extract_matrix rows cols src
              = Inl (ColumnCountMismatch i cols (length (row_tokens (found ! i)))))
     \<and> extract_matrix 2 3 ''pca_weight[2][2] = {{1.0,2.0},{3.0,4.0}};''
          = Inl (ColumnCountMismatch 0 3 2)"
proof -
  have a: "extract_matrix rows cols src = Inl (RowCountMismatch rows (length found))"
    if "length found \<noteq> rows"
    using that assms by (simp add: extract_matrix_found)
  have b: "\<exists>e. extract_matrix rows cols src = Inl e"
    if "\<exists>row\<in>set found. length (row_tokens row) \<noteq> cols"
    using that any_bad_row_fails [OF assms] by blast
  have c: "extract_matrix rows cols src
              = Inl (ColumnCountMismatch i cols (length (row_tokens (found ! i))))"
    if h: "length found = rows" "i < rows"
      "\<forall>j<i. \<exists>vs. row_values (found ! j) = Inr vs \<and> length vs = cols"
      "\<forall>t\<in>set (row_tokens (found ! i)). py_float (strip t) \<noteq> None"
      "length (row_tokens (found ! i)) \<noteq> cols"
  proof -
    have "row_values (found ! i) = Inr (map token_value (row_tokens (found ! i)))"
      using h(4) by (rule row_values_ok)
    moreover have "i < length found" using h(1,2) by simp
    ultimately have "parse_rows cols 0 found
              = Inl (ColumnCountMismatch i cols (length (row_tokens (found ! i))))"
      using parse_rows_at [OF _ h(3), of ] h(5) by simp
    then show ?thesis
      using assms h(1) by (simp add: extract_matrix_found)
  qed
  show ?thesis
    using a b c example_cols3 by (simp add: example_text_def)
qed

theorem shape_mismatch_errors_witness:
  "search_end ''pca_weight[2][2] = {{1.0,2.0},{3.0,4.0}};'' = Some 20
   \<and> findall_rows (array_text ''pca_weight[2][2] = {{1.0,2.0},{3.0,4.0}};'' 20)
        = [''1.0,2.0'', ''3.0,4.0'']
   \<and> row_tokens ''1.0,2.0'' = [''1.0'', ''2.0'']
   \<and> extract_matrix 3 2 ''pca_weight[2][2] = {{1.0,2.0},{3.0,4.0}};''
        = Inl (RowCountMismatch 3 2)
   \<and> extract_matrix 2 3 ''pca_weight[2][2] = {{1.0,2.0},{3.0,4.0}};''
        = Inl (ColumnCountMismatch 0 3 2)"
proof -
  let ?T = "''pca_weight[2][2] = {{1.0,2.0},{3.0,4.0}};''"
  let ?found = "[''1.0,2.0'', ''3.0,4.0'']"
  have se: "search_end ?T = Some 20" by code_simp
  have fa: "?found = findall_rows (array_text ?T 20)" by code_simp
  have rt: "row_tokens ''1.0,2.0'' = [''1.0'', ''2.0'']" by code_simp
  have pv: "map (\<lambda>p. py_float (strip p)) [''1.0'', ''2.0''] = [Some (Finite 1), Some (Finite 2)]"
    by code_simp
  have h1: "length ?found \<noteq> 3" by simp
  have h2: "\<exists>row\<in>set ?found. length (row_tokens row) \<noteq> 3" using rt by simp
  have h3: "length ?found = 2 \<and> (0::nat) < 2
          \<and> (\<forall>j<0::nat. \<exists>vs. row_values (?found ! j) = Inr vs \<and> length vs = 3)
          \<and> (\<forall>t\<in>set (row_tokens (?found ! 0)). py_float (strip t) \<noteq> None)
          \<and> length (row_tokens (?found ! 0)) \<noteq> 3"
    using rt pv by simp
  show ?thesis
    using shape_mismatch_errors [OF se fa, of 3 2 0] shape_mismatch_errors [OF se fa, of 2 3 0]
      h1 h2 h3 se fa [symmetric] rt
    by simp
qed

text \<open>
  The claim as first stated, a column-count mismatch whenever any group has a token count
  other than \<open>cols\<close>, fails: in \<^verbatim>\<open>{{x,2.0},{3.0}}\<close> with 2 expected columns the second
  group has one token, but the token \<^verbatim>\<open>x\<close> of the first group is parsed before any count
  is checked, and the failure is the malformed literal.
\<close>

theorem column_mismatch_counterexample:
  "search_end ''pca_weight[2][2] = {{x,2.0},{3.0}};'' = Some 20
   \<and> findall_rows (array_text ''pca_weight[2][2] = {{x,2.0},{3.0}};'' 20) = [''x,2.0'', ''3.0'']
   \<and> row_tokens ''3.0'' = [''3.0'']
   \<and> length (row_tokens ''3.0'') \<noteq> 2
   \<and> extract_matrix 2 2 ''pca_weight[2][2] = {{x,2.0},{3.0}};''
        = Inl (MalformedNumericLiteral ''x'')"
  by code_simp




text \<open>
  Claim C10, as amended.  The brace scan always ends, with the position between the
  start and the end of the text, and at depth 0 or at the end of the text; each step
  moves one character on.  When the braces are unbalanced (the final depth is not 0) no
  error is raised at this point: the body is the text from just after the opening brace
  up to, but not including, the last character of the text, and extraction goes on with
  this body.  A failure, if there is one, is then one of the ordinary errors of the later
  stages: a row-count mismatch, a column-count mismatch or a malformed literal.
\<close>

theorem brace_scan_unbalanced:
  assumes "start \<le> length src"
  shows "(\<exists>depth pos. brace_scan src 1 start = (depth, pos) \<and> start \<le> pos \<and> pos \<le> length src
            \<and> (depth = 0 \<or> pos = length src))
     \<and> (0 < d \<and> p < length src \<longrightarrow>
           brace_scan src d p =
             brace_scan src (if src ! p = CHR ''{'' then d + 1
                             else if src ! p = CHR ''}'' then d - 1 else d) (p + 1))
     \<and> (fst (brace_scan src 1 start) \<noteq> 0 \<longrightarrow>
           array_text src start = py_slice src (int start) (int (length src) - 1)
           \<and> array_text src start = butlast (drop start src))
     \<and> (fst (brace_scan src 1 start) \<noteq> 0 \<and> search_end src = Some start \<longrightarrow>
           extract_matrix rows cols src =
             (if length (findall_rows (butlast (drop start src))) \<noteq> rows
              then Inl (RowCountMismatch rows (length (findall_rows (butlast (drop start src)))))
              else parse_rows cols 0 (findall_rows (butlast (drop start src)))))
     \<and> (search_end src = Some start \<and> extract_matrix rows cols src = Inl e \<longrightarrow>
           (\<exists>n m. e = RowCountMismatch n m) \<or> (\<exists>k n m. e = ColumnCountMismatch k n m)
           \<or> (\<exists>s. e = MalformedNumericLiteral s))"
proof -
  have a: "\<exists>depth pos. brace_scan src 1 start = (depth, pos) \<and> start \<le> pos \<and> pos \<le> length src
            \<and> (depth = 0 \<or> pos = length src)"
    using assms by (rule brace_scan_exit)
  have b: "brace_scan src d p =
             brace_scan src (if src ! p = CHR ''{'' then d + 1
                             else if src ! p = CHR ''}'' then d - 1 else d) (p + 1)"
    if "0 < d \<and> p < length src"
    using that by (subst brace_scan.simps) simp
  have c: "array_text src start = py_slice src (int start) (int (length src) - 1)"
    "array_text src start = butlast (drop start src)"
    if "fst (brace_scan src 1 start) \<noteq> 0"
    using array_text_unbalanced [OF assms that] py_slice_butlast [OF assms] by simp_all
  have d: "extract_matrix rows cols src =
             (if length (findall_rows (butlast (drop start src))) \<noteq> rows
              then Inl (RowCountMismatch rows (length (findall_rows (butlast (drop start src)))))
              else parse_rows cols 0 (findall_rows (butlast (drop start src))))"
    if "fst (brace_scan src 1 start) \<noteq> 0" "search_end src = Some start"
    using extract_matrix_found [OF that(2)] c(2) [OF that(1)] by simp
  have e: "(\<exists>n m. e = RowCountMismatch n m) \<or> (\<exists>k n m. e = ColumnCountMismatch k n m)
           \<or> (\<exists>s. e = MalformedNumericLiteral s)"
    if "search_end src = Some start" "extract_matrix rows cols src = Inl e"
    using that by (rule extract_matrix_errors)
  show ?thesis
    using a b c d e by blast
qed

theorem brace_scan_unbalanced_witness:
  "search_end ''pca_weight[1][1]={{1.0} '' = Some 18
   \<and> brace_scan ''pca_weight[1][1]={{1.0} '' 1 18 = (1, 24)
   \<and> length ''pca_weight[1][1]={{1.0} '' = 24
   \<and> array_text ''pca_weight[1][1]={{1.0} '' 18 = ''{1.0}''
   \<and> extract_matrix 1 1 ''pca_weight[1][1]={{1.0} '' = Inr [[Finite 1]]
   \<and> extract_matrix 2 1 ''pca_weight[1][1]={{1.0} '' = Inl (RowCountMismatch 2 1)"
proof -
  let ?T = "''pca_weight[1][1]={{1.0} ''"
  have se: "search_end ?T = Some 18" by code_simp
  have bs: "brace_scan ?T 1 18 = (1, 24)" by code_simp
  have le: "(18::nat) \<le> length ?T" by simp
  have bl: "butlast (drop 18 ?T) = ''{1.0}''" by simp
  have fa: "findall_rows ''{1.0}'' = [''1.0'']" by code_simp
  have pr: "parse_rows 1 0 [''1.0''] = Inr [[Finite 1]]" by code_simp
  have ex2: "extract_matrix 2 1 ?T = Inl (RowCountMismatch 2 1)" by code_simp
  have st: "(0::nat) < 1 \<and> (18::nat) < length ?T" by simp
  show ?thesis
    using brace_scan_unbalanced [OF le, of 1 18 1 1 "RowCountMismatch 2 1"]
      brace_scan_unbalanced [OF le, of 1 18 2 1 "RowCountMismatch 2 1"]
      se bs bl fa pr ex2 st
    by simp
qed

text \<open>
  The claim as first stated, that any failure on unbalanced braces is a shape mismatch,
  fails: the text below has no closing brace for the initializer, its body is \<^verbatim>\<open>{x}\<close>,
  the row count is right, and the failure is the malformed literal.
\<close>

theorem unbalanced_failure_counterexample:
  "search_end ''pca_weight[1][1]={{x} '' = Some 18
   \<and> brace_scan ''pca_weight[1][1]={{x} '' 1 18 = (1, 22)
   \<and> length ''pca_weight[1][1]={{x} '' = 22
   \<and> extract_matrix 1 1 ''pca_weight[1][1]={{x} '' = Inl (MalformedNumericLiteral ''x'')"
  by code_simp

section \<open>Properties of the generator\<close>






end
